theory Spec2Isabelle
  imports Main "HOL-Library.Word" "HOL-Library.AList"
begin

section \<open>The Docker scheduler of microscaling\<close>

text \<open>
  A shallow embedding of \<^verbatim>\<open>scheduler/docker/docker.go\<close>. The scheduler keeps, for
  every task name, a map from container ID to a container record, and offers three
  operations to its caller: \<^verbatim>\<open>InitScheduler\<close> (register a task),
  \<^verbatim>\<open>StopStartTasks\<close> (the scale pass) and \<^verbatim>\<open>CountAllTasks\<close> (the observation
  pass).

  Conventions of the embedding:
  \<^item> Go's \<^verbatim>\<open>int\<close> is a 64-bit two's complement word: \<open>+\<close> and \<open>-\<close> wrap, and the
    comparisons of the source are the signed ones (\<open><s\<close>).
  \<^item> The inner map \<^verbatim>\<open>map[string]*dockerContainer\<close> is an association list. Go
    ranges over a map in an unspecified order; the order of the list stands for the
    order one \<^verbatim>\<open>range\<close> happens to take, and every theorem below holds for every list.
  \<^item> The outer map \<^verbatim>\<open>taskContainers\<close> is only looked up and assigned by key, never
    ranged over: it is a partial function.
  \<^item> \<^verbatim>\<open>tasks.Tasks\<close> is a slice of pointers to tasks. The pointers of one slice are
    taken to be pairwise distinct, so a task's position in the list is its address.
  \<^item> The Docker client is outside the repository: the answers of its calls
    (\<^verbatim>\<open>PullImage\<close>, \<^verbatim>\<open>ListContainers\<close>) are parameters of the operations.
  \<^item> A run-time panic of Go is a value \<open>Inl p\<close> of the result.
\<close>

subsection \<open>Data\<close>

type_synonym go_int = "64 word"

text \<open>\<^verbatim>\<open>type dockerContainer struct { state string; updated bool }\<close>\<close>

record dockerContainer =
  state :: string
  updated :: bool

text \<open>
  Modelled from the spec: the type \<^verbatim>\<open>demand.Task\<close> lives in package \<^verbatim>\<open>demand\<close>, which is
  not among the sources. The spec gives a task the fields name, image, demand, requested
  and running (and launch parameters that only the runtime calls read); the code reads
  them as \<^verbatim>\<open>task.Name\<close>, \<^verbatim>\<open>task.Image\<close>, \<^verbatim>\<open>task.Demand\<close>, \<^verbatim>\<open>task.Requested\<close> and
  \<^verbatim>\<open>task.Running\<close>, the last three with Go's \<^verbatim>\<open>int\<close> arithmetic.
\<close>

record Task =
  Name :: string
  Image :: string
  Demand :: go_int
  Requested :: go_int
  Running :: go_int

type_synonym containers = "(string \<times> dockerContainer) list"

text \<open>
  \<^verbatim>\<open>type DockerScheduler struct\<close>: the client and the mutex are not state of the model.
\<close>

record DockerScheduler =
  pullImages :: bool
  taskContainers :: "string \<rightharpoonup> containers"

text \<open>
  The error values of the package: the error of a client call, passed on as it is
  (\<^verbatim>\<open>InitScheduler\<close>), \<^verbatim>\<open>"[stop] No containers of type %s to kill"\<close> (\<^verbatim>\<open>stopTask\<close>) and
  \<^verbatim>\<open>"Failed to list containers: %v"\<close> (\<^verbatim>\<open>CountAllTasks\<close>).
\<close>

datatype error =
    ClientError string
  | NoContainersToKill string
  | FailedToListContainers string

text \<open>Reading an inner map of the store; a missing entry reads as Go's nil map.\<close>

definition containersOf :: "DockerScheduler \<Rightarrow> string \<Rightarrow> containers" where
  "containersOf c name = (case taskContainers c name of None \<Rightarrow> [] | Some m \<Rightarrow> m)"

subsection \<open>InitScheduler\<close>

text \<open>
  \<^verbatim>\<open>c.taskContainers[task.Name] = make(map[string]*dockerContainer, 100)\<close>, then the
  image is pulled when \<^verbatim>\<open>pullImages\<close> is set and the error of the pull is returned.
  \<open>PullImage\<close> is the client's answer for an image.
\<close>

definition InitScheduler ::
  "(string \<Rightarrow> error option) \<Rightarrow> DockerScheduler \<Rightarrow> Task \<Rightarrow> error option \<times> DockerScheduler" where
  "InitScheduler PullImage c task =
     (let c' = c\<lparr>taskContainers := (taskContainers c)(Name task \<mapsto> [])\<rparr>
      in if pullImages c then (PullImage (Image task), c') else (None, c'))"

subsection \<open>stopTask\<close>

text \<open>
  The loop of \<^verbatim>\<open>stopTask\<close> under the lock: the first record met in state
  \<^verbatim>\<open>"running"\<close> is set to \<^verbatim>\<open>"stopping"\<close> and its ID is kept; \<open>None\<close> when the loop ends
  without a match.
\<close>

fun markRunning :: "containers \<Rightarrow> (string \<times> containers) option" where
  "markRunning [] = None"
| "markRunning ((cid, v) # rest) =
     (if state v = ''running'' then Some (cid, (cid, v\<lparr>state := ''stopping''\<rparr>) # rest)
      else (case markRunning rest of
              None \<Rightarrow> None
            | Some (k, rest') \<Rightarrow> Some (k, (cid, v) # rest')))"

text \<open>
  \<^verbatim>\<open>stopTask\<close> up to its \<^verbatim>\<open>return\<close>: the returned error, the store, and the ID handed to
  the goroutine that stops and removes the container (\<open>None\<close>: no goroutine). The test
  \<^verbatim>\<open>containerToKill == ""\<close> comes after the loop, as in the source.
\<close>

definition stopTask ::
  "DockerScheduler \<Rightarrow> Task \<Rightarrow> error option \<times> DockerScheduler \<times> string option" where
  "stopTask c task =
     (case markRunning (containersOf c (Name task)) of
        None \<Rightarrow> (Some (NoContainersToKill (Name task)), c, None)
      | Some (containerToKill, m') \<Rightarrow>
          (let c' = c\<lparr>taskContainers := (taskContainers c)(Name task \<mapsto> m')\<rparr>
           in if containerToKill = '''' then (Some (NoContainersToKill (Name task)), c', None)
              else (None, c', Some containerToKill)))"

subsection \<open>StopStartTasks\<close>

text \<open>
  What the pass invokes, in order: \<open>StopInvoked i r\<close> is a call of \<^verbatim>\<open>stopTask\<close> for the
  task at position \<open>i\<close>, with \<open>r\<close> the ID given to its goroutine (\<open>None\<close> when the call
  returned the error and started none); \<open>StartInvoked i\<close> is a call of \<^verbatim>\<open>startTask\<close>,
  which always starts its goroutine.
\<close>

datatype invocation = StopInvoked nat "string option" | StartInvoked nat

record scale_state =
  ss_tasks :: "Task list"
  ss_sched :: DockerScheduler
  ss_err :: "error option"
  ss_trace :: "invocation list"

text \<open>The first loop: the tasks appended to \<^verbatim>\<open>tooFew\<close> and to \<^verbatim>\<open>tooMany\<close>.\<close>

definition tooFew :: "Task list \<Rightarrow> nat list" where
  "tooFew tasks =
     filter (\<lambda>i. Requested (tasks ! i) <s Demand (tasks ! i)
                \<and> Requested (tasks ! i) = Running (tasks ! i)) [0..<length tasks]"

definition tooMany :: "Task list \<Rightarrow> nat list" where
  "tooMany tasks =
     filter (\<lambda>i. Demand (tasks ! i) <s Requested (tasks ! i)
                \<and> Requested (tasks ! i) = Running (tasks ! i)) [0..<length tasks]"

text \<open>
  One turn of the inner loop of the scale-down phase:
  \<^verbatim>\<open>err = c.stopTask(task); ...; task.Requested--\<close>. The assignment to \<^verbatim>\<open>err\<close> is made
  on every turn, whatever \<^verbatim>\<open>stopTask\<close> returned.
\<close>

definition stopOnce :: "nat \<Rightarrow> scale_state \<Rightarrow> scale_state" where
  "stopOnce i s =
     (let task = ss_tasks s ! i;
          (e, c', unit) = stopTask (ss_sched s) task
      in \<lparr>ss_tasks = (ss_tasks s)[i := task\<lparr>Requested := Requested task - 1\<rparr>],
          ss_sched = c',
          ss_err = e,
          ss_trace = ss_trace s @ [StopInvoked i unit]\<rparr>)"

text \<open>One turn of the inner loop of the scale-up phase: \<^verbatim>\<open>c.startTask(task); task.Requested++\<close>.\<close>

definition startOnce :: "nat \<Rightarrow> scale_state \<Rightarrow> scale_state" where
  "startOnce i s =
     (let task = ss_tasks s ! i
      in s\<lparr>ss_tasks := (ss_tasks s)[i := task\<lparr>Requested := Requested task + 1\<rparr>],
           ss_trace := ss_trace s @ [StartInvoked i]\<rparr>)"

text \<open>
  \<^verbatim>\<open>for i := 0; i < diff; i++\<close> with \<^verbatim>\<open>diff\<close> an \<^verbatim>\<open>int\<close>: the body runs \<open>diff\<close> times
  when \<open>diff\<close> is positive and not at all otherwise.
\<close>

definition turns :: "go_int \<Rightarrow> nat" where
  "turns diff = nat (sint diff)"

definition scaleDown :: "nat \<Rightarrow> scale_state \<Rightarrow> scale_state" where
  "scaleDown i s =
     (let task = ss_tasks s ! i; diff = Requested task - Demand task
      in (stopOnce i ^^ turns diff) s)"

definition scaleUp :: "nat \<Rightarrow> scale_state \<Rightarrow> scale_state" where
  "scaleUp i s =
     (let task = ss_tasks s ! i; diff = Demand task - Requested task
      in (startOnce i ^^ turns diff) s)"

text \<open>
  The pass up to \<^verbatim>\<open>scaling.Wait()\<close>, as the calling goroutine runs it. The goroutines
  started by \<^verbatim>\<open>startTask\<close> and \<^verbatim>\<open>stopTask\<close> write only the states \<^verbatim>\<open>"created"\<close>,
  \<^verbatim>\<open>"starting"\<close> and \<^verbatim>\<open>"removing"\<close>, and only to records that are new or were set to
  \<^verbatim>\<open>"stopping"\<close>, so they never change which records \<^verbatim>\<open>stopTask\<close> finds in state
  \<^verbatim>\<open>"running"\<close>; their writes are not part of \<open>ss_sched\<close>. The value returned by
  the pass is \<open>ss_err\<close> of the final state.
\<close>

definition StopStartTasks :: "DockerScheduler \<Rightarrow> Task list \<Rightarrow> scale_state" where
  "StopStartTasks c tasks =
     (let few = tooFew tasks;
          many = tooMany tasks;
          s0 = \<lparr>ss_tasks = tasks, ss_sched = c, ss_err = None, ss_trace = []\<rparr>;
          s1 = fold scaleDown many s0
      in fold scaleUp few s1)"

text \<open>Counting over the invocations of a pass: which task, and how many stops and starts.\<close>

fun invokedFor :: "invocation \<Rightarrow> nat" where
  "invokedFor (StopInvoked i r) = i"
| "invokedFor (StartInvoked i) = i"

fun isStop :: "invocation \<Rightarrow> bool" where
  "isStop (StopInvoked i r) = True"
| "isStop (StartInvoked i) = False"

definition stopsFor :: "nat \<Rightarrow> invocation list \<Rightarrow> nat" where
  "stopsFor i tr = length (filter (\<lambda>e. isStop e \<and> invokedFor e = i) tr)"

definition startsFor :: "nat \<Rightarrow> invocation list \<Rightarrow> nat" where
  "startsFor i tr = length (filter (\<lambda>e. \<not> isStop e \<and> invokedFor e = i) tr)"

text \<open>
  The error of the last call of \<^verbatim>\<open>stopTask\<close> among the invocations of a pass: nil when
  there was no such call or the last one started its goroutine. \<open>ns\<close> are the names of
  the tasks.
\<close>

fun failure :: "string list \<Rightarrow> invocation \<Rightarrow> error option" where
  "failure ns (StopInvoked i None) = Some (NoContainersToKill (ns ! i))"
| "failure ns (StopInvoked i (Some cid)) = None"
| "failure ns (StartInvoked i) = None"

definition lastStopError :: "string list \<Rightarrow> invocation list \<Rightarrow> error option" where
  "lastStopError ns tr = (case rev (filter isStop tr) of [] \<Rightarrow> None | e # es \<Rightarrow> failure ns e)"

text \<open>The number of records of an inner map in state \<^verbatim>\<open>"running"\<close>.\<close>

definition runningCount :: "containers \<Rightarrow> nat" where
  "runningCount m = length (filter (\<lambda>(k, v). state v = ''running'') m)"

subsection \<open>statusToState\<close>

text \<open>
  What \<^verbatim>\<open>CountAllTasks\<close> writes to the log at level error or info, one constructor for
  each message text: \<^verbatim>\<open>"Received info about task %s that we're not managing"\<close>,
  \<^verbatim>\<open>"Unexpected docker status %s"\<close>,
  \<^verbatim>\<open>"We have no previous record of container %s, state %s"\<close> (the one at level info),
  \<^verbatim>\<open>"Container %s is being removed, but we didn't terminate it"\<close> (the text of both the
  \<^verbatim>\<open>"removing"\<close> and the \<^verbatim>\<open>"exited"\<close> case), \<^verbatim>\<open>"Container %s is dead"\<close> and
  \<^verbatim>\<open>"Bad state for container %s: %s"\<close>. Debug output is not modelled.
\<close>

datatype log_event =
    NotManaging string
  | UnexpectedStatus string
  | NoPreviousRecord string string
  | NotTerminatedByUs string
  | IsDead string
  | BadState string string

text \<open>Go's \<^verbatim>\<open>strings.Contains\<close>: the second string occurs in the first.\<close>

fun hasPrefix :: "string \<Rightarrow> string \<Rightarrow> bool" where
  "hasPrefix s [] = True"
| "hasPrefix [] (p # ps) = False"
| "hasPrefix (x # xs) (p # ps) = (x = p \<and> hasPrefix xs ps)"

fun Contains :: "string \<Rightarrow> string \<Rightarrow> bool" where
  "Contains [] sub = (sub = [])"
| "Contains (x # xs) sub = (hasPrefix (x # xs) sub \<or> Contains xs sub)"

definition statusToState :: "string \<Rightarrow> string \<times> log_event list" where
  "statusToState status =
     (if Contains status ''Up'' then (''running'', [])
      else if Contains status ''Removal'' then (''removing'', [])
      else if Contains status ''Exit'' then (''exited'', [])
      else if Contains status ''Dead'' then (''dead'', [])
      else (''unknown'', [UnexpectedStatus status]))"

subsection \<open>CountAllTasks\<close>

definition labelMap :: string where
  "labelMap = ''com.microscaling.microscaling-in-a-box''"

text \<open>The fields of \<^verbatim>\<open>docker.APIContainers\<close> that the pass reads.\<close>

record APIContainers =
  ID :: string
  Status :: string
  Labels :: "string \<rightharpoonup> string"

text \<open>
  Modelled from the spec: \<^verbatim>\<open>running.GetTask(taskName)\<close> is a method of package
  \<^verbatim>\<open>demand\<close>, which is not among the sources. The spec calls it a lookup by name that
  fails for a name that is not managed; here it gives the position of the first task of
  that name.
\<close>

fun GetTask :: "Task list \<Rightarrow> string \<Rightarrow> nat option" where
  "GetTask [] name = None"
| "GetTask (t # ts) name = (if Name t = name then Some 0 else map_option Suc (GetTask ts name))"

datatype panic = SliceBoundsOutOfRange | AssignmentToNilMap

record count_state =
  cs_tasks :: "Task list"
  cs_sched :: DockerScheduler
  cs_log :: "log_event list"

text \<open>
  The \<^verbatim>\<open>switch newState\<close> of the pass, without the counter: the record after it and what
  it logs. A state with no case (\<^verbatim>\<open>"unknown"\<close>) changes nothing.
\<close>

definition applyState ::
  "string \<Rightarrow> string \<Rightarrow> dockerContainer \<Rightarrow> dockerContainer \<times> log_event list" where
  "applyState newState cid thisContainer =
     (if newState = ''running'' then
        (if state thisContainer = ''starting'' \<or> state thisContainer = ''''
         then thisContainer\<lparr>state := newState\<rparr> else thisContainer, [])
      else if newState = ''removing'' then
        (thisContainer,
         if state thisContainer \<noteq> ''removing'' then [NotTerminatedByUs cid] else [])
      else if newState = ''exited'' then
        (thisContainer,
         if state thisContainer \<noteq> ''stopping'' \<and> state thisContainer \<noteq> ''exited''
         then [NotTerminatedByUs cid] else [])
      else if newState = ''dead'' then
        (thisContainer\<lparr>state := newState\<rparr>,
         if state thisContainer \<noteq> ''dead'' then [IsDead cid] else [])
      else (thisContainer, []))"

text \<open>
  The body of the loop over the listed containers. \<^verbatim>\<open>containers[i].ID[:12]\<close> panics on
  an ID shorter than 12 bytes; \<^verbatim>\<open>c.taskContainers[taskName][id] = thisContainer\<close> panics
  when the task has no inner map (Go reads a nil map, but does not assign to it).
\<close>

definition observe :: "APIContainers \<Rightarrow> count_state \<Rightarrow> panic + count_state" where
  "observe ac s =
     (case Labels ac labelMap of
        None \<Rightarrow> Inr s
      | Some taskName \<Rightarrow>
          (case GetTask (cs_tasks s) taskName of
             None \<Rightarrow> Inr (s\<lparr>cs_log := cs_log s @ [NotManaging taskName]\<rparr>)
           | Some ti \<Rightarrow>
               (let (newState, l1) = statusToState (Status ac)
                in if length (ID ac) < 12 then Inl SliceBoundsOutOfRange
                   else
                     (let cid = take 12 (ID ac);
                          c = cs_sched s;
                          found = map_of (containersOf c taskName) cid;
                          l2 = (if found = None then [NoPreviousRecord cid newState] else [])
                      in if found = None \<and> taskContainers c taskName = None
                         then Inl AssignmentToNilMap
                         else
                           (let thisContainer =
                                  (case found of
                                     None \<Rightarrow> \<lparr>state = '''', updated = False\<rparr>
                                   | Some r \<Rightarrow> r);
                                (seen, l3) = applyState newState cid thisContainer;
                                t = cs_tasks s ! ti;
                                tasks' =
                                  (if newState = ''running''
                                   then (cs_tasks s)[ti := t\<lparr>Running := Running t + 1\<rparr>]
                                   else cs_tasks s);
                                m' = AList.update cid (seen\<lparr>updated := True\<rparr>)
                                       (containersOf c taskName)
                            in Inr \<lparr>cs_tasks = tasks',
                                    cs_sched =
                                      c\<lparr>taskContainers := (taskContainers c)(taskName \<mapsto> m')\<rparr>,
                                    cs_log = cs_log s @ l1 @ l2 @ l3\<rparr>)))))"

fun observeAll :: "APIContainers list \<Rightarrow> count_state \<Rightarrow> panic + count_state" where
  "observeAll [] s = Inr s"
| "observeAll (ac # acs) s =
     (case observe ac s of Inl p \<Rightarrow> Inl p | Inr s' \<Rightarrow> observeAll acs s')"

text \<open>
  The first loop of the pass: \<^verbatim>\<open>t.Running = 0\<close> for every task, and
  \<^verbatim>\<open>cc.updated = false\<close> for every record of the task's inner map.
\<close>

definition resetUpdated :: "string \<Rightarrow> DockerScheduler \<Rightarrow> DockerScheduler" where
  "resetUpdated name c =
     (case taskContainers c name of
        None \<Rightarrow> c
      | Some m \<Rightarrow>
          c\<lparr>taskContainers :=
              (taskContainers c)(name \<mapsto> map (\<lambda>(cid, cc). (cid, cc\<lparr>updated := False\<rparr>)) m)\<rparr>)"

definition resetAll :: "Task list \<Rightarrow> DockerScheduler \<Rightarrow> Task list \<times> DockerScheduler" where
  "resetAll tasks c =
     (map (\<lambda>t. t\<lparr>Running := 0\<rparr>) tasks, fold (\<lambda>t. resetUpdated (Name t)) tasks c)"

text \<open>
  The last loop of the pass, over one inner map: a record that was not seen is deleted in
  state \<^verbatim>\<open>"removing"\<close> or \<^verbatim>\<open>"exited"\<close>, and logged when its state is none of
  \<^verbatim>\<open>"created"\<close>, \<^verbatim>\<open>"starting"\<close>, \<^verbatim>\<open>"stopping"\<close>.
\<close>

fun sweep :: "containers \<Rightarrow> containers \<times> log_event list" where
  "sweep [] = ([], [])"
| "sweep ((cid, cc) # rest) =
     (let (kept, lg) = sweep rest
      in if \<not> updated cc then
           (if state cc = ''removing'' \<or> state cc = ''exited'' then (kept, lg)
            else if state cc \<noteq> ''created'' \<and> state cc \<noteq> ''starting''
                    \<and> state cc \<noteq> ''stopping''
                 then ((cid, cc) # kept, BadState cid (state cc) # lg)
                 else ((cid, cc) # kept, lg))
         else ((cid, cc) # kept, lg))"

definition sweepTask ::
  "Task \<Rightarrow> DockerScheduler \<times> log_event list \<Rightarrow> DockerScheduler \<times> log_event list" where
  "sweepTask task cl =
     (case taskContainers (fst cl) (Name task) of
        None \<Rightarrow> cl
      | Some m \<Rightarrow>
          (let (m', l) = sweep m
           in ((fst cl)\<lparr>taskContainers := (taskContainers (fst cl))(Name task \<mapsto> m')\<rparr>,
               snd cl @ l)))"

text \<open>
  The pass. \<open>listed\<close> is the answer of \<^verbatim>\<open>ListContainers\<close>: \<open>Inl e\<close> its error,
  \<open>Inr containers\<close> the list. The result is the returned error and the state left
  behind; the \<^verbatim>\<open>err\<close> returned at the end is the outer one, which is nil there
  (\<^verbatim>\<open>t, err := running.GetTask(taskName)\<close> declares an inner one).
\<close>

definition CountAllTasks ::
  "string + APIContainers list \<Rightarrow> DockerScheduler \<Rightarrow> Task list
     \<Rightarrow> panic + error option \<times> count_state" where
  "CountAllTasks listed c running =
     (case listed of
        Inl e \<Rightarrow>
          Inr (Some (FailedToListContainers e),
               \<lparr>cs_tasks = running, cs_sched = c, cs_log = []\<rparr>)
      | Inr containers \<Rightarrow>
          (let (tasks0, c0) = resetAll running c
           in case observeAll containers \<lparr>cs_tasks = tasks0, cs_sched = c0, cs_log = []\<rparr> of
                Inl p \<Rightarrow> Inl p
              | Inr s \<Rightarrow>
                  (let (c', lg) = fold sweepTask (cs_tasks s) (cs_sched s, cs_log s)
                   in Inr (None, s\<lparr>cs_sched := c', cs_log := lg\<rparr>))))"

subsection \<open>Reading the store and the log\<close>

text \<open>The record kept for a container of a task, if any.\<close>

definition recordOf :: "DockerScheduler \<Rightarrow> string \<Rightarrow> string \<Rightarrow> dockerContainer option" where
  "recordOf c name cid = map_of (containersOf c name) cid"

text \<open>
  A Go map holds a key once. The store is well formed when every inner list does:
  every operation above keeps it so.
\<close>

definition wfStore :: "DockerScheduler \<Rightarrow> bool" where
  "wfStore c = (\<forall>name m. taskContainers c name = Some m \<longrightarrow> distinct (map fst m))"

text \<open>
  \<^verbatim>\<open>thisContainer\<close> before the \<^verbatim>\<open>switch\<close>: the record found, or the fresh
  \<^verbatim>\<open>&dockerContainer{}\<close>, whose state is the empty string.
\<close>

definition priorRecord :: "dockerContainer option \<Rightarrow> dockerContainer" where
  "priorRecord found = (case found of None \<Rightarrow> \<lparr>state = '''', updated = False\<rparr> | Some r \<Rightarrow> r)"

text \<open>The record \<^verbatim>\<open>observe\<close> stores for a container, and what it logs for it.\<close>

definition observedRecord :: "string \<Rightarrow> string \<Rightarrow> dockerContainer option \<Rightarrow> dockerContainer" where
  "observedRecord newState cid found =
     (fst (applyState newState cid (priorRecord found)))\<lparr>updated := True\<rparr>"

definition observedLog :: "string \<Rightarrow> string \<Rightarrow> dockerContainer option \<Rightarrow> log_event list" where
  "observedLog status cid found =
     snd (statusToState status)
     @ (if found = None then [NoPreviousRecord cid (fst (statusToState status))] else [])
     @ snd (applyState (fst (statusToState status)) cid (priorRecord found))"

text \<open>The two tests of the last loop on a record.\<close>

definition deletable :: "dockerContainer \<Rightarrow> bool" where
  "deletable cc = (\<not> updated cc \<and> (state cc = ''removing'' \<or> state cc = ''exited''))"

definition badState :: "dockerContainer \<Rightarrow> bool" where
  "badState cc = (\<not> updated cc \<and> state cc \<noteq> ''removing'' \<and> state cc \<noteq> ''exited'' \<and>
      state cc \<noteq> ''created'' \<and> state cc \<noteq> ''starting'' \<and> state cc \<noteq> ''stopping'')"

definition unflag :: "string \<times> dockerContainer \<Rightarrow> string \<times> dockerContainer" where
  "unflag = (\<lambda>(cid, cc). (cid, cc\<lparr>updated := False\<rparr>))"




definition bump :: "APIContainers \<Rightarrow> Task list \<Rightarrow> Task list" where
  "bump ac ts =
     (case Labels ac labelMap of
        None \<Rightarrow> ts
      | Some n \<Rightarrow>
          (case GetTask ts n of
             None \<Rightarrow> ts
           | Some ti \<Rightarrow>
               if fst (statusToState (Status ac)) = ''running''
               then ts[ti := (ts ! ti)\<lparr>Running := Running (ts ! ti) + 1\<rparr>] else ts))"


text \<open>
  Reading the result of a pass: its log, the record it leaves for a container, its
  tasks; and the pass run again on the state that a first pass left.
\<close>

definition passLog :: "panic + error option \<times> count_state \<Rightarrow> log_event list" where
  "passLog r = (case r of Inl p \<Rightarrow> [] | Inr es \<Rightarrow> cs_log (snd es))"

definition passTasks :: "panic + error option \<times> count_state \<Rightarrow> Task list" where
  "passTasks r = (case r of Inl p \<Rightarrow> [] | Inr es \<Rightarrow> cs_tasks (snd es))"

definition passRecord ::
  "panic + error option \<times> count_state \<Rightarrow> string \<Rightarrow> string \<Rightarrow> dockerContainer option" where
  "passRecord r name cid = (case r of Inl p \<Rightarrow> None | Inr es \<Rightarrow> recordOf (cs_sched (snd es)) name cid)"

definition passAgain ::
  "APIContainers list \<Rightarrow> panic + error option \<times> count_state
     \<Rightarrow> panic + error option \<times> count_state" where
  "passAgain containers r =
     (case r of
        Inl p \<Rightarrow> Inl p
      | Inr es \<Rightarrow> CountAllTasks (Inr containers) (cs_sched (snd es)) (cs_tasks (snd es)))"

subsection \<open>The goroutines of a pass and the wait group\<close>

text \<open>
  \<^verbatim>\<open>startTask\<close> and \<^verbatim>\<open>stopTask\<close> end in
  \<^verbatim>\<open>go func() { scaling.Add(1); defer scaling.Done(); ... }()\<close>, and the pass ends in
  \<^verbatim>\<open>scaling.Wait()\<close>, where \<^verbatim>\<open>scaling\<close> is a \<^verbatim>\<open>sync.WaitGroup\<close>. The calling
  goroutine and the goroutines it starts take their steps in any order. A goroutine is
  \<open>Spawned\<close> once the \<^verbatim>\<open>go\<close> statement has run, \<open>Working\<close> once it has run
  \<^verbatim>\<open>scaling.Add(1)\<close>, and \<open>Finished\<close> once its body has ended, by whichever
  \<^verbatim>\<open>return\<close>, and the deferred \<^verbatim>\<open>scaling.Done()\<close> has run. What the body does to the
  store and to the runtime in between is not part of this model. The caller makes the
  invocations of the pass in their order, then calls \<^verbatim>\<open>scaling.Wait()\<close>, which returns
  when the counter of the wait group is 0.
\<close>

datatype stage = Spawned | Working | Finished

datatype caller = Issuing "invocation list" | Waiting | Returned

record pass_state =
  ps_caller :: caller
  ps_counter :: int
  ps_units :: "stage list"

text \<open>
  \<^verbatim>\<open>startTask\<close> always reaches its \<^verbatim>\<open>go\<close> statement; \<^verbatim>\<open>stopTask\<close> reaches it when it
  found a container to stop.
\<close>

fun launches :: "invocation \<Rightarrow> bool" where
  "launches (StartInvoked i) = True"
| "launches (StopInvoked i r) = (r \<noteq> None)"

inductive step :: "pass_state \<Rightarrow> pass_state \<Rightarrow> bool" where
  launch: "ps_caller s = Issuing (e # es) \<Longrightarrow> launches e \<Longrightarrow>
       step s (s\<lparr>ps_caller := Issuing es, ps_units := ps_units s @ [Spawned]\<rparr>)"
| skip: "ps_caller s = Issuing (e # es) \<Longrightarrow> \<not> launches e \<Longrightarrow>
       step s (s\<lparr>ps_caller := Issuing es\<rparr>)"
| waits: "ps_caller s = Issuing [] \<Longrightarrow> step s (s\<lparr>ps_caller := Waiting\<rparr>)"
| returns: "ps_caller s = Waiting \<Longrightarrow> ps_counter s = 0 \<Longrightarrow>
       step s (s\<lparr>ps_caller := Returned\<rparr>)"
| adds: "k < length (ps_units s) \<Longrightarrow> ps_units s ! k = Spawned \<Longrightarrow>
       step s (s\<lparr>ps_units := (ps_units s)[k := Working], ps_counter := ps_counter s + 1\<rparr>)"
| finishes: "k < length (ps_units s) \<Longrightarrow> ps_units s ! k = Working \<Longrightarrow>
       step s (s\<lparr>ps_units := (ps_units s)[k := Finished], ps_counter := ps_counter s - 1\<rparr>)"

text \<open>The pass begins with its invocations ahead, the counter at 0 and no goroutine.\<close>

definition passStart :: "DockerScheduler \<Rightarrow> Task list \<Rightarrow> pass_state" where
  "passStart c tasks =
     \<lparr>ps_caller = Issuing (ss_trace (StopStartTasks c tasks)), ps_counter = 0, ps_units = []\<rparr>"

subsection \<open>Example inputs\<close>

text \<open>The client pulls every image without an error.\<close>

definition pullOk :: "string \<Rightarrow> error option" where
  "pullOk img = None"

text \<open>The task of the spec's scenario: demand 3, requested 1, running 1.\<close>

definition exWeb :: Task where
  "exWeb = \<lparr>Name = ''web'', Image = ''nginx'', Demand = 3, Requested = 1, Running = 1\<rparr>"


text \<open>Two tasks to scale down by one each.\<close>

definition downDb :: Task where
  "downDb = \<lparr>Name = ''db'', Image = ''redis'', Demand = 0, Requested = 1, Running = 1\<rparr>"

definition downWeb :: Task where
  "downWeb = \<lparr>Name = ''web'', Image = ''nginx'', Demand = 0, Requested = 1, Running = 1\<rparr>"


definition emptySched :: DockerScheduler where
  "emptySched = \<lparr>pullImages = False, taskContainers = Map.empty\<rparr>"

text \<open>
  \<open>web\<close> has one container, running; the only container of \<open>db\<close> is being stopped.
\<close>

definition exSched :: DockerScheduler where
  "exSched = \<lparr>pullImages = False,
     taskContainers =
       [''web'' \<mapsto> [(''0123456789ab'', \<lparr>state = ''running'', updated = True\<rparr>)],
        ''db'' \<mapsto> [(''aaaaaaaaaaaa'', \<lparr>state = ''stopping'', updated = True\<rparr>)]]\<rparr>"





text \<open>
  A store in which \<open>web\<close> has a container being removed and one running, and \<open>db\<close>,
  registered too, has one being removed.
\<close>

definition gcSched :: DockerScheduler where
  "gcSched = \<lparr>pullImages = False,
     taskContainers =
       [''web'' \<mapsto> [(''0123456789ab'', \<lparr>state = ''removing'', updated = True\<rparr>),
                      (''111111111111'', \<lparr>state = ''running'', updated = True\<rparr>)],
        ''db'' \<mapsto> [(''aaaaaaaaaaaa'', \<lparr>state = ''removing'', updated = False\<rparr>)]]\<rparr>"

section \<open>Proofs\<close>

subsection \<open>stopTask\<close>

lemma markRunning_None: "markRunning m = None \<longleftrightarrow> runningCount m = 0"
  by (induction m) (auto simp: runningCount_def split: option.splits)

lemma runningCount_append: "runningCount (xs @ ys) = runningCount xs + runningCount ys"
  by (simp add: runningCount_def)

lemma runningCount_Cons:
  "runningCount ((k, v) # ys) = (if state v = ''running'' then 1 else 0) + runningCount ys"
  by (simp add: runningCount_def)

text \<open>The loop stops at the first running record and changes that record only.\<close>

lemma markRunning_Some:
  "markRunning m = Some (cid, m') \<Longrightarrow>
     \<exists>pre v post. m = pre @ (cid, v) # post \<and> state v = ''running'' \<and> runningCount pre = 0 \<and>
        m' = pre @ (cid, v\<lparr>state := ''stopping''\<rparr>) # post"
proof (induction m arbitrary: m')
  case Nil
  then show ?case by simp
next
  case (Cons a m)
  obtain k w where a: "a = (k, w)" by (cases a)
  show ?case
  proof (cases "state w = ''running''")
    case True
    with Cons.prems a have "cid = k" "m' = (k, w\<lparr>state := ''stopping''\<rparr>) # m" by auto
    with True a show ?thesis
      by (intro exI[of _ "[]"] exI[of _ w] exI[of _ m]) (simp add: runningCount_def)
  next
    case False
    with Cons.prems a obtain r where r: "markRunning m = Some (cid, r)" "m' = (k, w) # r"
      by (auto split: option.splits)
    from Cons.IH[OF r(1)] obtain pre v post where
      "m = pre @ (cid, v) # post" "state v = ''running''" "runningCount pre = 0"
      "r = pre @ (cid, v\<lparr>state := ''stopping''\<rparr>) # post" by blast
    with a r(2) False show ?thesis
      by (intro exI[of _ "(k, w) # pre"] exI[of _ v] exI[of _ post]) (simp add: runningCount_def)
  qed
qed

lemma markRunning_key: "markRunning m = Some (cid, m') \<Longrightarrow> cid \<in> fst ` set m"
  by (drule markRunning_Some) force

lemma containersOf_upd [simp]:
  "containersOf (c\<lparr>taskContainers := (taskContainers c)(n \<mapsto> m)\<rparr>) n = m"
  by (simp add: containersOf_def)

text \<open>
  C6. \<^verbatim>\<open>stopTask\<close>, whose loop and assignment run between \<^verbatim>\<open>c.Lock()\<close> and
  \<^verbatim>\<open>c.Unlock()\<close> (one step of the model): when the task has a record in state
  \<^verbatim>\<open>"running"\<close>, the call picks one, sets it to \<^verbatim>\<open>"stopping"\<close>, changes nothing else and
  returns no error; when it has none, the call returns the error
  \<^verbatim>\<open>"No containers of type ... to kill"\<close> and the store is as before. Hence with exactly
  one running record the first of two calls succeeds and marks that container, and the
  second fails. The IDs of the store are never empty (they are the first 12 bytes of an
  ID of the runtime), which is the hypothesis.
\<close>

theorem stopTask_running_to_stopping:
  assumes ids: "'''' \<notin> fst ` set (containersOf c (Name task))"
  shows
   "(runningCount (containersOf c (Name task)) = 0 \<longrightarrow>
        stopTask c task = (Some (NoContainersToKill (Name task)), c, None)) \<and>
    (0 < runningCount (containersOf c (Name task)) \<longrightarrow>
        (\<exists>pre cid v post.
            containersOf c (Name task) = pre @ (cid, v) # post \<and> state v = ''running'' \<and>
            runningCount pre = 0 \<and>
            stopTask c task =
              (None,
               c\<lparr>taskContainers :=
                   (taskContainers c)(Name task \<mapsto> pre @ (cid, v\<lparr>state := ''stopping''\<rparr>) # post)\<rparr>,
               Some cid))) \<and>
    (runningCount (containersOf c (Name task)) = 1 \<longrightarrow>
        (\<exists>c1 cid v. stopTask c task = (None, c1, Some cid) \<and>
             (cid, v) \<in> set (containersOf c (Name task)) \<and> state v = ''running'' \<and>
             (cid, v\<lparr>state := ''stopping''\<rparr>) \<in> set (containersOf c1 (Name task)) \<and>
             stopTask c1 task = (Some (NoContainersToKill (Name task)), c1, None)))"
proof -
  let ?m = "containersOf c (Name task)"
  have none: "runningCount ?m = 0 \<Longrightarrow>
      stopTask c task = (Some (NoContainersToKill (Name task)), c, None)"
    by (simp add: stopTask_def markRunning_None [symmetric])
  have some: "\<exists>pre cid v post.
            ?m = pre @ (cid, v) # post \<and> state v = ''running'' \<and> runningCount pre = 0 \<and>
            stopTask c task =
              (None,
               c\<lparr>taskContainers :=
                   (taskContainers c)(Name task \<mapsto> pre @ (cid, v\<lparr>state := ''stopping''\<rparr>) # post)\<rparr>,
               Some cid)" if pos: "0 < runningCount ?m"
  proof -
    from pos obtain cid m' where mr: "markRunning ?m = Some (cid, m')"
      using markRunning_None [of ?m] by (cases "markRunning ?m") auto
    from markRunning_key [OF mr] ids have ne: "cid \<noteq> ''''" by force
    from markRunning_Some [OF mr] obtain pre v post where
      split: "?m = pre @ (cid, v) # post" "state v = ''running''" "runningCount pre = 0"
      "m' = pre @ (cid, v\<lparr>state := ''stopping''\<rparr>) # post" by blast
    have "stopTask c task =
       (None, c\<lparr>taskContainers := (taskContainers c)(Name task \<mapsto> m')\<rparr>, Some cid)"
      using mr ne by (simp add: stopTask_def)
    with split show ?thesis by blast
  qed
  have twice: "\<exists>c1 cid v. stopTask c task = (None, c1, Some cid) \<and>
             (cid, v) \<in> set ?m \<and> state v = ''running'' \<and>
             (cid, v\<lparr>state := ''stopping''\<rparr>) \<in> set (containersOf c1 (Name task)) \<and>
             stopTask c1 task = (Some (NoContainersToKill (Name task)), c1, None)"
    if one: "runningCount ?m = 1"
  proof -
    from one have "0 < runningCount ?m" by simp
    from some [OF this] obtain pre cid v post where
      split: "?m = pre @ (cid, v) # post" "state v = ''running''" "runningCount pre = 0" and
      st: "stopTask c task =
              (None,
               c\<lparr>taskContainers :=
                   (taskContainers c)(Name task \<mapsto> pre @ (cid, v\<lparr>state := ''stopping''\<rparr>) # post)\<rparr>,
               Some cid)" by blast
    let ?c1 = "c\<lparr>taskContainers :=
                   (taskContainers c)(Name task \<mapsto> pre @ (cid, v\<lparr>state := ''stopping''\<rparr>) # post)\<rparr>"
    from one split have "runningCount post = 0"
      by (simp add: runningCount_append runningCount_Cons)
    with split have "runningCount (containersOf ?c1 (Name task)) = 0"
      by (simp add: runningCount_append runningCount_Cons)
    then have "stopTask ?c1 task = (Some (NoContainersToKill (Name task)), ?c1, None)"
      by (simp add: stopTask_def markRunning_None [symmetric])
    with st split show ?thesis
      by (intro exI[of _ ?c1] exI[of _ cid] exI[of _ v]) simp
  qed
  from none some twice show ?thesis by blast
qed

text \<open>
  The scenario of the claim, on \<open>exSched\<close>: \<open>web\<close> has one running container, the first
  stop marks it and the second finds none.
\<close>

theorem stopTask_running_to_stopping_witness:
  "'''' \<notin> fst ` set (containersOf exSched (Name exWeb)) \<and>
   runningCount (containersOf exSched (Name exWeb)) = 1 \<and>
   (\<exists>c1 cid v. stopTask exSched exWeb = (None, c1, Some cid) \<and>
       (cid, v) \<in> set (containersOf exSched (Name exWeb)) \<and> state v = ''running'' \<and>
       (cid, v\<lparr>state := ''stopping''\<rparr>) \<in> set (containersOf c1 (Name exWeb)) \<and>
       stopTask c1 exWeb = (Some (NoContainersToKill (Name exWeb)), c1, None))"
proof -
  have ids: "'''' \<notin> fst ` set (containersOf exSched (Name exWeb))"
    by (simp add: exSched_def exWeb_def containersOf_def)
  have one: "runningCount (containersOf exSched (Name exWeb)) = 1"
    by (simp add: exSched_def exWeb_def containersOf_def runningCount_def)
  from stopTask_running_to_stopping [OF ids] one ids show ?thesis by blast
qed

subsection \<open>InitScheduler\<close>

text \<open>
  C7, as the code has it. \<^verbatim>\<open>InitScheduler\<close> has no test for a name that is registered
  already and no error for it: a second call for the same name assigns a fresh, empty
  inner map to the name (the records of the old one are gone), leaves the entries of the
  other names as they were, and returns what the pull of the image returned when
  \<^verbatim>\<open>pullImages\<close> is set, and nil otherwise.
\<close>

theorem InitScheduler_registered_again:
  assumes "taskContainers c (Name task) \<noteq> None"
  shows "\<exists>e c'. InitScheduler PullImage c task = (e, c') \<and>
           e = (if pullImages c then PullImage (Image task) else None) \<and>
           taskContainers c' = (taskContainers c)(Name task \<mapsto> []) \<and>
           pullImages c' = pullImages c"
  by (simp add: InitScheduler_def Let_def)

theorem InitScheduler_registered_again_witness:
  "taskContainers exSched (Name exWeb) \<noteq> None \<and>
   (\<exists>e c'. InitScheduler pullOk exSched exWeb = (e, c') \<and>
           e = (if pullImages exSched then pullOk (Image exWeb) else None) \<and>
           taskContainers c' = (taskContainers exSched)(Name exWeb \<mapsto> []) \<and>
           pullImages c' = pullImages exSched)"
proof -
  have h: "taskContainers exSched (Name exWeb) \<noteq> None"
    by (simp add: exSched_def exWeb_def)
  from InitScheduler_registered_again [OF h, of pullOk] h show ?thesis by blast
qed

text \<open>
  The claim as the spec states it fails: after \<open>web\<close> is registered, a second call for
  \<open>web\<close> returns no error; and on \<open>exSched\<close>, where \<open>web\<close> holds a record, the call
  returns no error and leaves \<open>web\<close> with no record.
\<close>

theorem InitScheduler_AlreadyManaged_counterexample:
  "taskContainers (snd (InitScheduler pullOk emptySched exWeb)) ''web'' = Some [] \<and>
   fst (InitScheduler pullOk (snd (InitScheduler pullOk emptySched exWeb)) exWeb) = None \<and>
   taskContainers exSched ''web''
     = Some [(''0123456789ab'', \<lparr>state = ''running'', updated = True\<rparr>)] \<and>
   fst (InitScheduler pullOk exSched exWeb) = None \<and>
   taskContainers (snd (InitScheduler pullOk exSched exWeb)) ''web'' = Some []"
  by (simp add: InitScheduler_def Let_def emptySched_def exSched_def exWeb_def)

subsection \<open>StopStartTasks\<close>

lemma stopsFor_Nil [simp]: "stopsFor i [] = 0" and startsFor_Nil [simp]: "startsFor i [] = 0"
  by (simp_all add: stopsFor_def startsFor_def)

lemma stopsFor_append [simp]: "stopsFor i (xs @ ys) = stopsFor i xs + stopsFor i ys"
  by (simp add: stopsFor_def)

lemma startsFor_append [simp]: "startsFor i (xs @ ys) = startsFor i xs + startsFor i ys"
  by (simp add: startsFor_def)

lemma stopsFor_stops [simp]:
  "stopsFor j (map (StopInvoked i) rs) = (if j = i then length rs else 0)"
  by (induction rs) (auto simp: stopsFor_def)

lemma startsFor_stops [simp]: "startsFor j (map (StopInvoked i) rs) = 0"
  by (induction rs) (auto simp: startsFor_def)

lemma stopsFor_starts [simp]: "stopsFor j (replicate k (StartInvoked i)) = 0"
  by (induction k) (auto simp: stopsFor_def)

lemma startsFor_starts [simp]:
  "startsFor j (replicate k (StartInvoked i)) = (if j = i then k else 0)"
  by (induction k) (auto simp: startsFor_def)








lemma startOnce_pow_err: "ss_err ((startOnce i ^^ k) s) = ss_err s"
  by (induction k) (simp_all add: startOnce_def Let_def)





lemma fold_scaleUp_err: "ss_err (fold scaleUp js s) = ss_err s"
  by (induction js arbitrary: s)
     (simp_all add: scaleUp_def Let_def startOnce_pow_err)

lemma tooMany_iff:
  "i \<in> set (tooMany tasks) \<longleftrightarrow>
     i < length tasks \<and> Demand (tasks ! i) <s Requested (tasks ! i) \<and>
     Requested (tasks ! i) = Running (tasks ! i)"
  by (auto simp: tooMany_def)










text \<open>
  What the pass returns: the result of its last call of \<^verbatim>\<open>stopTask\<close>, whatever the
  calls before it returned.
\<close>

lemma lastStopError_simps [simp]:
  "lastStopError ns [] = None"
  "lastStopError ns (tr @ [StopInvoked i r]) = failure ns (StopInvoked i r)"
  "lastStopError ns (tr @ [StartInvoked i]) = lastStopError ns tr"
  by (simp_all add: lastStopError_def)

lemma stopTask_result:
  "(\<exists>c'. stopTask c task = (Some (NoContainersToKill (Name task)), c', None)) \<or>
   (\<exists>c' cid. stopTask c task = (None, c', Some cid))"
  by (auto simp: stopTask_def Let_def split: option.splits)

lemma names_requested_update:
  "map Name (xs[i := (xs ! i)\<lparr>Requested := r\<rparr>]) = map Name xs"
  by (induction xs arbitrary: i) (auto split: nat.splits)

lemma stopOnce_err:
  assumes "i < length (ss_tasks s)"
    and "ss_err s = lastStopError (map Name (ss_tasks s)) (ss_trace s)"
  shows "ss_err (stopOnce i s) =
           lastStopError (map Name (ss_tasks (stopOnce i s))) (ss_trace (stopOnce i s))"
    and "length (ss_tasks (stopOnce i s)) = length (ss_tasks s)"
  using assms stopTask_result [of "ss_sched s" "ss_tasks s ! i"]
  by (auto simp: stopOnce_def Let_def names_requested_update)

lemma startOnce_err:
  assumes "ss_err s = lastStopError (map Name (ss_tasks s)) (ss_trace s)"
  shows "ss_err (startOnce i s) =
           lastStopError (map Name (ss_tasks (startOnce i s))) (ss_trace (startOnce i s))"
    and "length (ss_tasks (startOnce i s)) = length (ss_tasks s)"
  using assms by (auto simp: startOnce_def Let_def names_requested_update)

lemma stopOnce_pow_last_stop:
  assumes "i < length (ss_tasks s)"
    and "ss_err s = lastStopError (map Name (ss_tasks s)) (ss_trace s)"
  shows "ss_err ((stopOnce i ^^ k) s) =
           lastStopError (map Name (ss_tasks ((stopOnce i ^^ k) s))) (ss_trace ((stopOnce i ^^ k) s))
         \<and> length (ss_tasks ((stopOnce i ^^ k) s)) = length (ss_tasks s)"
proof (induction k)
  case 0
  then show ?case using assms by simp
next
  case (Suc k)
  then show ?case using assms(1) stopOnce_err [of i "(stopOnce i ^^ k) s"] by simp
qed

lemma startOnce_pow_last_stop:
  assumes "ss_err s = lastStopError (map Name (ss_tasks s)) (ss_trace s)"
  shows "ss_err ((startOnce i ^^ k) s) =
           lastStopError (map Name (ss_tasks ((startOnce i ^^ k) s))) (ss_trace ((startOnce i ^^ k) s))
         \<and> length (ss_tasks ((startOnce i ^^ k) s)) = length (ss_tasks s)"
proof (induction k)
  case 0
  then show ?case using assms by simp
next
  case (Suc k)
  then show ?case using startOnce_err [of "(startOnce i ^^ k) s" i] by simp
qed

lemma fold_scaleDown_last_stop:
  assumes "\<forall>i\<in>set js. i < length (ss_tasks s)"
    and "ss_err s = lastStopError (map Name (ss_tasks s)) (ss_trace s)"
  shows "ss_err (fold scaleDown js s) =
           lastStopError (map Name (ss_tasks (fold scaleDown js s))) (ss_trace (fold scaleDown js s))
         \<and> length (ss_tasks (fold scaleDown js s)) = length (ss_tasks s)"
  using assms
proof (induction js arbitrary: s)
  case Nil
  then show ?case by simp
next
  case (Cons i js)
  from Cons.prems have i: "i < length (ss_tasks s)" by simp
  from stopOnce_pow_last_stop [OF i Cons.prems(2)]
  have 1: "ss_err (scaleDown i s) =
      lastStopError (map Name (ss_tasks (scaleDown i s))) (ss_trace (scaleDown i s))"
    and 2: "length (ss_tasks (scaleDown i s)) = length (ss_tasks s)"
    by (simp_all add: scaleDown_def Let_def)
  from Cons.prems(1) 2 have "\<forall>j\<in>set js. j < length (ss_tasks (scaleDown i s))" by simp
  from Cons.IH [OF this 1] 2 show ?case by simp
qed

lemma fold_scaleUp_last_stop:
  assumes "ss_err s = lastStopError (map Name (ss_tasks s)) (ss_trace s)"
  shows "ss_err (fold scaleUp js s) =
           lastStopError (map Name (ss_tasks (fold scaleUp js s))) (ss_trace (fold scaleUp js s))"
  using assms
proof (induction js arbitrary: s)
  case Nil
  then show ?case by simp
next
  case (Cons i js)
  from startOnce_pow_last_stop [OF Cons.prems]
  have "ss_err (scaleUp i s) =
      lastStopError (map Name (ss_tasks (scaleUp i s))) (ss_trace (scaleUp i s))"
    by (simp add: scaleUp_def Let_def)
  from Cons.IH [OF this] show ?case by simp
qed

lemma StopStartTasks_returns_last_stop:
  "ss_err (StopStartTasks c tasks) =
     lastStopError (map Name (ss_tasks (StopStartTasks c tasks)))
       (ss_trace (StopStartTasks c tasks))"
proof -
  let ?s0 = "\<lparr>ss_tasks = tasks, ss_sched = c, ss_err = None, ss_trace = []\<rparr>"
  have "\<forall>i\<in>set (tooMany tasks). i < length (ss_tasks ?s0)" by (simp add: tooMany_iff)
  moreover have "ss_err ?s0 = lastStopError (map Name (ss_tasks ?s0)) (ss_trace ?s0)" by simp
  ultimately have "ss_err (fold scaleDown (tooMany tasks) ?s0) =
      lastStopError (map Name (ss_tasks (fold scaleDown (tooMany tasks) ?s0)))
        (ss_trace (fold scaleDown (tooMany tasks) ?s0))"
    using fold_scaleDown_last_stop [of "tooMany tasks" ?s0] by blast
  from fold_scaleUp_last_stop [OF this] show ?thesis
    by (simp add: StopStartTasks_def Let_def)
qed

text \<open>
  C3: the pass returns the \<^verbatim>\<open>err\<close> of its last call of \<^verbatim>\<open>stopTask\<close>, not the latest
  error. On \<open>exSched\<close> with \<open>db\<close> before \<open>web\<close>, both to scale down by one: the stop for
  \<open>db\<close> finds no running container and returns the error, the stop for \<open>web\<close> that
  follows succeeds and assigns nil to \<^verbatim>\<open>err\<close>, and the pass returns nil.
\<close>

theorem StopStartTasks_later_stop_clears_error:
  "ss_trace (StopStartTasks exSched [downDb, downWeb])
     = [StopInvoked 0 None, StopInvoked 1 (Some ''0123456789ab'')] \<and>
   fst (stopTask exSched downDb) = Some (NoContainersToKill ''db'') \<and>
   ss_err (StopStartTasks exSched [downDb, downWeb]) = None"
  by (simp add: StopStartTasks_def tooFew_def tooMany_def downDb_def downWeb_def exSched_def
      scaleDown_def scaleUp_def turns_def word_sless_alt stopOnce_def stopTask_def
      containersOf_def)

subsection \<open>The goroutines of a pass\<close>

lemma passStart_example:
  "passStart exSched [exWeb] =
     \<lparr>ps_caller = Issuing [StartInvoked 0, StartInvoked 0], ps_counter = 0, ps_units = []\<rparr>"
  by (simp add: passStart_def StopStartTasks_def tooFew_def tooMany_def exWeb_def
      scaleUp_def scaleDown_def turns_def startOnce_def word_sless_alt numeral_2_eq_2)

text \<open>
  C9: the pass is not a barrier over its goroutines. \<^verbatim>\<open>scaling.Add(1)\<close> is the first
  statement of the goroutine, not a statement of the caller before \<^verbatim>\<open>go\<close>, so the
  caller can reach \<^verbatim>\<open>scaling.Wait()\<close> while the counter is still 0. In the scenario
  of the spec (\<open>web\<close> with demand 3, requested 1, running 1) the pass starts two
  goroutines, and there is an order of steps in which it returns while both have yet to
  run their first statement.
\<close>

theorem StopStartTasks_returns_before_units_finish:
  "\<exists>s. step\<^sup>*\<^sup>* (passStart exSched [exWeb]) s \<and> ps_caller s = Returned \<and>
       ps_units s = [Spawned, Spawned] \<and> ps_counter s = 0"
proof -
  let ?s0 = "\<lparr>ps_caller = Issuing [StartInvoked 0, StartInvoked 0], ps_counter = 0,
              ps_units = []\<rparr>"
  let ?s1 = "\<lparr>ps_caller = Issuing [StartInvoked 0], ps_counter = 0, ps_units = [Spawned]\<rparr>"
  let ?s2 = "\<lparr>ps_caller = Issuing [], ps_counter = 0, ps_units = [Spawned, Spawned]\<rparr>"
  let ?s3 = "\<lparr>ps_caller = Waiting, ps_counter = 0, ps_units = [Spawned, Spawned]\<rparr>"
  let ?s4 = "\<lparr>ps_caller = Returned, ps_counter = 0, ps_units = [Spawned, Spawned]\<rparr>"
  have 1: "step ?s0 ?s1"
    using step.launch [of ?s0 "StartInvoked 0" "[StartInvoked 0]"] by simp
  have 2: "step ?s1 ?s2"
    using step.launch [of ?s1 "StartInvoked 0" "[]"] by simp
  have 3: "step ?s2 ?s3"
    using step.waits [of ?s2] by simp
  have 4: "step ?s3 ?s4"
    using step.returns [of ?s3] by simp
  have "step\<^sup>*\<^sup>* ?s0 ?s0" by (rule rtranclp.rtrancl_refl)
  from this 1 have "step\<^sup>*\<^sup>* ?s0 ?s1" by (rule rtranclp.rtrancl_into_rtrancl)
  from this 2 have "step\<^sup>*\<^sup>* ?s0 ?s2" by (rule rtranclp.rtrancl_into_rtrancl)
  from this 3 have "step\<^sup>*\<^sup>* ?s0 ?s3" by (rule rtranclp.rtrancl_into_rtrancl)
  from this 4 have "step\<^sup>*\<^sup>* ?s0 ?s4" by (rule rtranclp.rtrancl_into_rtrancl)
  then show ?thesis
    by (intro exI[of _ ?s4]) (simp add: passStart_example)
qed

subsection \<open>CountAllTasks\<close>

text \<open>
  C10. When \<^verbatim>\<open>ListContainers\<close> fails, the pass returns the error
  \<^verbatim>\<open>"Failed to list containers: ..."\<close> and the tasks and the store are the ones it was
  given: the running counts are not reset, no record is made, changed or deleted, and
  nothing is logged.
\<close>

theorem CountAllTasks_list_failure:
  "CountAllTasks (Inl e) c running =
     Inr (Some (FailedToListContainers e), \<lparr>cs_tasks = running, cs_sched = c, cs_log = []\<rparr>)"
  by (simp add: CountAllTasks_def)

lemmas pass_eval =
  CountAllTasks_def resetAll_def resetUpdated_def observe_def statusToState_def applyState_def
  sweepTask_def containersOf_def labelMap_def passLog_def passTasks_def passRecord_def
  passAgain_def recordOf_def Let_def


lemma wfStore_gcSched: "wfStore gcSched"
  by (auto simp: wfStore_def gcSched_def split: if_splits)




lemma observe_unlabelled: "Labels ac labelMap = None \<Longrightarrow> observe ac s = Inr s"
  by (simp add: observe_def)

lemma observe_unmanaged:
  "Labels ac labelMap = Some n \<Longrightarrow> GetTask (cs_tasks s) n = None \<Longrightarrow>
   observe ac s = Inr (s\<lparr>cs_log := cs_log s @ [NotManaging n]\<rparr>)"
  by (simp add: observe_def)

lemma recordOf_None_if_unregistered:
  "taskContainers c n = None \<Longrightarrow> recordOf c n k = None"
  by (simp add: recordOf_def containersOf_def)

lemma observe_managed:
  assumes "Labels ac labelMap = Some n" and "GetTask (cs_tasks s) n = Some ti"
  shows "observe ac s =
     (if length (ID ac) < 12 then Inl SliceBoundsOutOfRange
      else if taskContainers (cs_sched s) n = None then Inl AssignmentToNilMap
      else Inr \<lparr>cs_tasks =
                  (if fst (statusToState (Status ac)) = ''running''
                   then (cs_tasks s)[ti := (cs_tasks s ! ti)\<lparr>Running := Running (cs_tasks s ! ti) + 1\<rparr>]
                   else cs_tasks s),
                cs_sched = (cs_sched s)\<lparr>taskContainers := (taskContainers (cs_sched s))
                   (n \<mapsto> AList.update (take 12 (ID ac))
                      (observedRecord (fst (statusToState (Status ac))) (take 12 (ID ac))
                         (recordOf (cs_sched s) n (take 12 (ID ac))))
                      (containersOf (cs_sched s) n))\<rparr>,
                cs_log = cs_log s @ observedLog (Status ac) (take 12 (ID ac))
                           (recordOf (cs_sched s) n (take 12 (ID ac)))\<rparr>)"
proof (cases "taskContainers (cs_sched s) n")
  case None
  then show ?thesis using assms
    by (simp add: observe_def Let_def split: prod.splits
        add: recordOf_None_if_unregistered [unfolded recordOf_def])
next
  case (Some m)
  then show ?thesis using assms
    by (simp add: observe_def Let_def observedRecord_def observedLog_def priorRecord_def
        recordOf_def split: prod.splits)
qed






lemma sweep_fst: "fst (sweep m) = filter (\<lambda>(k, cc). \<not> deletable cc) m"
  by (induction m) (auto simp: deletable_def split_beta)

lemma sweep_snd:
  "snd (sweep m) = map (\<lambda>(k, cc). BadState k (state cc)) (filter (\<lambda>(k, cc). badState cc) m)"
  by (induction m) (auto simp: badState_def split_beta)

lemma sweep_idem: "fst (sweep (fst (sweep m))) = fst (sweep m)"
  by (simp add: sweep_fst)

lemma sweep_log_idem: "snd (sweep (fst (sweep m))) = snd (sweep m)"
proof -
  have "filter (\<lambda>(k, cc). badState cc) (filter (\<lambda>(k, cc). \<not> deletable cc) m)
      = filter (\<lambda>(k, cc). badState cc) m"
    by (induction m) (auto simp: badState_def deletable_def)
  then show ?thesis by (simp add: sweep_fst sweep_snd)
qed

lemma sweepTask_store:
  "taskContainers (fst (sweepTask t (c, lg))) n =
     (if n = Name t then map_option (\<lambda>m. fst (sweep m)) (taskContainers c n)
      else taskContainers c n)"
  by (auto simp: sweepTask_def split: option.splits prod.splits)

lemma sweepTask_log:
  "snd (sweepTask t (c, lg)) = lg @ snd (sweep (containersOf c (Name t)))"
  by (auto simp: sweepTask_def containersOf_def split: option.splits prod.splits)

lemma containersOf_sweepTask:
  "containersOf (fst (sweepTask t (c, lg))) n =
     (if n = Name t then fst (sweep (containersOf c n)) else containersOf c n)"
  by (auto simp: containersOf_def sweepTask_store split: option.splits)

lemma fold_sweepTask:
  "taskContainers (fst (fold sweepTask ts (c, lg))) n =
     (if n \<in> Name ` set ts then map_option (\<lambda>m. fst (sweep m)) (taskContainers c n)
      else taskContainers c n) \<and>
   set (snd (fold sweepTask ts (c, lg))) =
     set lg \<union> (\<Union>t\<in>set ts. set (snd (sweep (containersOf c (Name t)))))"
proof (induction ts arbitrary: c lg)
  case Nil
  then show ?case by simp
next
  case (Cons t ts)
  obtain c1 lg1 where s1: "sweepTask t (c, lg) = (c1, lg1)" by (cases "sweepTask t (c, lg)")
  have st: "taskContainers c1 n =
     (if n = Name t then map_option (\<lambda>m. fst (sweep m)) (taskContainers c n)
      else taskContainers c n)" for n
    using sweepTask_store [of t c lg n] s1 by simp
  have co: "containersOf c1 n =
     (if n = Name t then fst (sweep (containersOf c n)) else containersOf c n)" for n
    using containersOf_sweepTask [of t c lg n] s1 by simp
  have lg1: "lg1 = lg @ snd (sweep (containersOf c (Name t)))"
    using sweepTask_log [of t c lg] s1 by simp
  have logs: "snd (sweep (containersOf c1 n)) = snd (sweep (containersOf c n))" for n
    by (simp add: co sweep_log_idem)
  have "taskContainers (fst (fold sweepTask ts (c1, lg1))) n =
     (if n \<in> Name ` set (t # ts) then map_option (\<lambda>m. fst (sweep m)) (taskContainers c n)
      else taskContainers c n)"
    using Cons.IH [of c1 lg1] st
    by (cases "taskContainers c n") (auto simp: sweep_idem)
  moreover have "set (snd (fold sweepTask ts (c1, lg1))) =
     set lg \<union> (\<Union>t\<in>set (t # ts). set (snd (sweep (containersOf c (Name t)))))"
    using Cons.IH [of c1 lg1] by (auto simp: logs lg1)
  ultimately show ?case by (simp add: s1)
qed

lemma resetUpdated_store:
  "taskContainers (resetUpdated n' c) n =
     (if n = n' then map_option (map unflag) (taskContainers c n) else taskContainers c n)"
  by (auto simp: resetUpdated_def unflag_def split: option.splits)

lemma unflag_unflag [simp]: "unflag \<circ> unflag = unflag"
  by (auto simp: unflag_def fun_eq_iff)

lemma fst_unflag [simp]: "fst \<circ> unflag = fst"
  by (auto simp: unflag_def fun_eq_iff)

lemma fold_resetUpdated:
  "taskContainers (fold (\<lambda>t. resetUpdated (Name t)) ts c) n =
     (if n \<in> Name ` set ts then map_option (map unflag) (taskContainers c n)
      else taskContainers c n)"
proof (induction ts arbitrary: c)
  case Nil
  then show ?case by simp
next
  case (Cons t ts)
  show ?case
    using Cons.IH [of "resetUpdated (Name t) c"]
    by (cases "taskContainers c n") (auto simp: resetUpdated_store)
qed

lemma resetAll_store:
  "taskContainers (snd (resetAll ts c)) n =
     (if n \<in> Name ` set ts then map_option (map unflag) (taskContainers c n)
      else taskContainers c n)"
  by (simp add: resetAll_def fold_resetUpdated)

lemma resetAll_tasks: "fst (resetAll ts c) = map (\<lambda>t. t\<lparr>Running := 0\<rparr>) ts"
  by (simp add: resetAll_def)



lemma wfStore_resetAll: "wfStore c \<Longrightarrow> wfStore (snd (resetAll ts c))"
  unfolding wfStore_def resetAll_store by (auto split: if_splits)

lemma names_list_update:
  "map Name (xs[i := (xs ! i)\<lparr>Running := r\<rparr>]) = map Name xs"
  by (induction xs arbitrary: i) (auto split: nat.splits)

lemma observe_names: "observe ac s = Inr s' \<Longrightarrow> map Name (cs_tasks s') = map Name (cs_tasks s)"
proof (cases "Labels ac labelMap")
  case None
  then show "observe ac s = Inr s' \<Longrightarrow> ?thesis" by (auto simp: observe_unlabelled)
next
  case (Some n)
  show "observe ac s = Inr s' \<Longrightarrow> ?thesis"
  proof (cases "GetTask (cs_tasks s) n")
    case None
    with Some show "observe ac s = Inr s' \<Longrightarrow> ?thesis" by (auto simp: observe_unmanaged)
  next
    case (Some ti)
    with \<open>Labels ac labelMap = Some n\<close> show "observe ac s = Inr s' \<Longrightarrow> ?thesis"
      by (auto simp: observe_managed names_list_update split: if_splits)
  qed
qed

lemma observeAll_names:
  "observeAll acs s = Inr s' \<Longrightarrow> map Name (cs_tasks s') = map Name (cs_tasks s)"
proof (induction acs arbitrary: s)
  case Nil
  then show ?case by simp
next
  case (Cons ac acs)
  then show ?case by (auto split: sum.splits dest: observe_names)
qed

lemma wfStore_update:
  "wfStore c \<Longrightarrow>
   wfStore (c\<lparr>taskContainers := (taskContainers c)(n \<mapsto> AList.update k v (containersOf c n))\<rparr>)"
  by (auto simp: wfStore_def containersOf_def distinct_update split: option.splits)

lemma observe_wfStore:
  "observe ac s = Inr s' \<Longrightarrow> wfStore (cs_sched s) \<Longrightarrow> wfStore (cs_sched s')"
proof (cases "Labels ac labelMap")
  case None
  then show "observe ac s = Inr s' \<Longrightarrow> wfStore (cs_sched s) \<Longrightarrow> ?thesis"
    by (auto simp: observe_unlabelled)
next
  case (Some n)
  show "observe ac s = Inr s' \<Longrightarrow> wfStore (cs_sched s) \<Longrightarrow> ?thesis"
  proof (cases "GetTask (cs_tasks s) n")
    case None
    with Some show "observe ac s = Inr s' \<Longrightarrow> wfStore (cs_sched s) \<Longrightarrow> ?thesis"
      by (auto simp: observe_unmanaged)
  next
    case (Some ti)
    with \<open>Labels ac labelMap = Some n\<close>
    show "observe ac s = Inr s' \<Longrightarrow> wfStore (cs_sched s) \<Longrightarrow> ?thesis"
      by (auto simp: observe_managed wfStore_update split: if_splits)
  qed
qed

lemma observeAll_wfStore:
  "observeAll acs s = Inr s' \<Longrightarrow> wfStore (cs_sched s) \<Longrightarrow> wfStore (cs_sched s')"
proof (induction acs arbitrary: s)
  case Nil
  then show ?case by simp
next
  case (Cons ac acs)
  then show ?case by (auto split: sum.splits dest: observe_wfStore)
qed

lemma map_of_filter_distinct:
  "distinct (map fst m) \<Longrightarrow>
   map_of (filter (\<lambda>(k, cc). Q cc) m) k =
     (case map_of m k of None \<Rightarrow> None | Some cc \<Rightarrow> if Q cc then Some cc else None)"
proof (induction m)
  case Nil
  then show ?case by simp
next
  case (Cons a m)
  then show ?case
    by (cases a) (auto split: option.splits simp: map_of_eq_None_iff rev_image_eqI)
qed

lemma recordOf_swept:
  assumes "wfStore c"
  shows "recordOf (fst (fold sweepTask ts (c, lg))) n k =
     (if n \<in> Name ` set ts
      then (case recordOf c n k of None \<Rightarrow> None
            | Some cc \<Rightarrow> if \<not> deletable cc then Some cc else None)
      else recordOf c n k)"
proof (cases "taskContainers c n")
  case None
  then show ?thesis
    using fold_sweepTask [of ts c lg n] by (simp add: recordOf_def containersOf_def)
next
  case (Some m)
  with assms have "distinct (map fst m)" by (simp add: wfStore_def)
  from map_of_filter_distinct [OF this, of "\<lambda>cc. \<not> deletable cc" k] Some show ?thesis
    using fold_sweepTask [of ts c lg n]
    by (simp add: recordOf_def containersOf_def sweep_fst)
qed

lemma observedLog_no_BadState: "BadState k st \<notin> set (observedLog status cid found)"
  by (simp add: observedLog_def statusToState_def applyState_def)

lemma observe_log_BadState:
  "observe ac s = Inr s' \<Longrightarrow> BadState k st \<in> set (cs_log s') \<Longrightarrow> BadState k st \<in> set (cs_log s)"
proof (cases "Labels ac labelMap")
  case None
  then show "observe ac s = Inr s' \<Longrightarrow> BadState k st \<in> set (cs_log s') \<Longrightarrow> ?thesis"
    by (auto simp: observe_unlabelled)
next
  case (Some n)
  show "observe ac s = Inr s' \<Longrightarrow> BadState k st \<in> set (cs_log s') \<Longrightarrow> ?thesis"
  proof (cases "GetTask (cs_tasks s) n")
    case None
    with Some show "observe ac s = Inr s' \<Longrightarrow> BadState k st \<in> set (cs_log s') \<Longrightarrow> ?thesis"
      by (auto simp: observe_unmanaged)
  next
    case (Some ti)
    with \<open>Labels ac labelMap = Some n\<close>
    show "observe ac s = Inr s' \<Longrightarrow> BadState k st \<in> set (cs_log s') \<Longrightarrow> ?thesis"
      by (auto simp: observe_managed observedLog_no_BadState split: if_splits)
  qed
qed

lemma observeAll_log_BadState:
  "observeAll acs s = Inr s' \<Longrightarrow> BadState k st \<in> set (cs_log s') \<Longrightarrow>
   BadState k st \<in> set (cs_log s)"
proof (induction acs arbitrary: s)
  case Nil
  then show ?case by simp
next
  case (Cons ac acs)
  then show ?case by (auto split: sum.splits dest: observe_log_BadState)
qed

lemma BadState_in_sweep:
  "BadState k st \<in> set (snd (sweep m)) \<longleftrightarrow> (\<exists>cc. (k, cc) \<in> set m \<and> badState cc \<and> st = state cc)"
  by (auto simp: sweep_snd)

lemma CountAllTasks_listed:
  assumes "observeAll containers
             \<lparr>cs_tasks = fst (resetAll running c), cs_sched = snd (resetAll running c),
              cs_log = []\<rparr> = Inr mid"
  shows "CountAllTasks (Inr containers) c running =
           Inr (None, mid\<lparr>cs_sched := fst (fold sweepTask (cs_tasks mid) (cs_sched mid, cs_log mid)),
                          cs_log := snd (fold sweepTask (cs_tasks mid) (cs_sched mid, cs_log mid))\<rparr>)"
  using assms by (simp add: CountAllTasks_def split_beta)

text \<open>
  C5, as the code has it. The last loop of the pass goes through the inner maps of the
  tasks of the list given to the pass, and through no other. For a record of such a task
  that is unseen when the loop over the listed containers has ended (\<open>mid\<close>): in state
  \<^verbatim>\<open>"removing"\<close> or \<^verbatim>\<open>"exited"\<close> it is deleted; in any other state it is kept as it
  is, and \<^verbatim>\<open>"Bad state for container"\<close> is logged for it exactly when its state is none
  of \<^verbatim>\<open>"created"\<close>, \<^verbatim>\<open>"starting"\<close>, \<^verbatim>\<open>"stopping"\<close>.
\<close>

theorem CountAllTasks_sweeps_unseen:
  assumes wf: "wfStore c"
    and mid: "observeAll containers
                \<lparr>cs_tasks = fst (resetAll running c), cs_sched = snd (resetAll running c),
                 cs_log = []\<rparr> = Inr mid"
    and t: "t \<in> set running"
    and r: "recordOf (cs_sched mid) (Name t) cid = Some cc"
    and unseen: "\<not> updated cc"
  shows "\<exists>s'. CountAllTasks (Inr containers) c running = Inr (None, s') \<and>
           (if state cc = ''removing'' \<or> state cc = ''exited''
            then recordOf (cs_sched s') (Name t) cid = None
            else recordOf (cs_sched s') (Name t) cid = Some cc \<and>
                 (BadState cid (state cc) \<in> set (cs_log s') \<longleftrightarrow>
                    state cc \<noteq> ''created'' \<and> state cc \<noteq> ''starting'' \<and>
                    state cc \<noteq> ''stopping''))"
proof -
  let ?c' = "fst (fold sweepTask (cs_tasks mid) (cs_sched mid, cs_log mid))"
  let ?lg = "snd (fold sweepTask (cs_tasks mid) (cs_sched mid, cs_log mid))"
  let ?s' = "mid\<lparr>cs_sched := ?c', cs_log := ?lg\<rparr>"
  have res: "CountAllTasks (Inr containers) c running = Inr (None, ?s')"
    using CountAllTasks_listed [OF mid] .
  have names: "map Name (cs_tasks mid) = map Name running"
    using observeAll_names [OF mid] by (simp add: resetAll_tasks comp_def)
  then have "Name ` set (cs_tasks mid) = Name ` set running"
    by (metis list.set_map)
  with t have n: "Name t \<in> Name ` set (cs_tasks mid)" by blast
  have wfm: "wfStore (cs_sched mid)"
    using observeAll_wfStore [OF mid] wfStore_resetAll [OF wf] by simp
  have rec: "recordOf ?c' (Name t) cid = (if \<not> deletable cc then Some cc else None)"
    using recordOf_swept [OF wfm, of "cs_tasks mid" "cs_log mid" "Name t" cid] n r by simp
  have del: "deletable cc \<longleftrightarrow> state cc = ''removing'' \<or> state cc = ''exited''"
    using unseen by (simp add: deletable_def)
  have mem: "(cid, cc) \<in> set (containersOf (cs_sched mid) (Name t))"
    using r by (simp add: recordOf_def map_of_SomeD)
  have logs: "set ?lg = set (cs_log mid) \<union>
      (\<Union>u\<in>set (cs_tasks mid). set (snd (sweep (containersOf (cs_sched mid) (Name u)))))"
    using fold_sweepTask [of "cs_tasks mid" "cs_sched mid" "cs_log mid"] by simp
  have nolog: "BadState cid (state cc) \<notin> set (cs_log mid)"
    using observeAll_log_BadState [OF mid] by auto
  have "BadState cid (state cc) \<in> set ?lg \<longleftrightarrow>
      state cc \<noteq> ''created'' \<and> state cc \<noteq> ''starting'' \<and> state cc \<noteq> ''stopping''"
    if keep: "\<not> (state cc = ''removing'' \<or> state cc = ''exited'')"
  proof
    assume "BadState cid (state cc) \<in> set ?lg"
    with logs nolog obtain u :: Task where
      "BadState cid (state cc) \<in> set (snd (sweep (containersOf (cs_sched mid) (Name u))))"
      by auto
    then obtain cc' where "badState cc'" "state cc = state cc'"
      by (auto simp: BadState_in_sweep)
    then show "state cc \<noteq> ''created'' \<and> state cc \<noteq> ''starting'' \<and> state cc \<noteq> ''stopping''"
      by (simp add: badState_def)
  next
    assume "state cc \<noteq> ''created'' \<and> state cc \<noteq> ''starting'' \<and> state cc \<noteq> ''stopping''"
    with keep unseen have "badState cc" by (simp add: badState_def)
    with mem have "BadState cid (state cc)
        \<in> set (snd (sweep (containersOf (cs_sched mid) (Name t))))"
      by (auto simp: BadState_in_sweep)
    moreover from n obtain u where u: "u \<in> set (cs_tasks mid)" "Name u = Name t" by auto
    ultimately have "BadState cid (state cc)
        \<in> set (snd (sweep (containersOf (cs_sched mid) (Name u))))"
      by simp
    with u(1) show "BadState cid (state cc) \<in> set ?lg"
      unfolding logs by blast
  qed
  with res rec del show ?thesis
    by (intro exI[of _ ?s']) auto
qed

text \<open>
  On \<open>gcSched\<close> with no container listed: the record of \<open>web\<close> in state
  \<^verbatim>\<open>"removing"\<close> is deleted, the one in state \<^verbatim>\<open>"running"\<close> is kept and logged.
\<close>

theorem CountAllTasks_sweeps_unseen_witness:
  "wfStore gcSched \<and>
   observeAll []
     \<lparr>cs_tasks = fst (resetAll [exWeb] gcSched), cs_sched = snd (resetAll [exWeb] gcSched),
      cs_log = []\<rparr>
     = Inr \<lparr>cs_tasks = fst (resetAll [exWeb] gcSched),
            cs_sched = snd (resetAll [exWeb] gcSched), cs_log = []\<rparr> \<and>
   exWeb \<in> set [exWeb] \<and>
   recordOf (snd (resetAll [exWeb] gcSched)) (Name exWeb) ''0123456789ab''
     = Some \<lparr>state = ''removing'', updated = False\<rparr> \<and>
   recordOf (snd (resetAll [exWeb] gcSched)) (Name exWeb) ''111111111111''
     = Some \<lparr>state = ''running'', updated = False\<rparr> \<and>
   (\<exists>s'. CountAllTasks (Inr []) gcSched [exWeb] = Inr (None, s') \<and>
      recordOf (cs_sched s') (Name exWeb) ''0123456789ab'' = None \<and>
      recordOf (cs_sched s') (Name exWeb) ''111111111111''
        = Some \<lparr>state = ''running'', updated = False\<rparr> \<and>
      BadState ''111111111111'' ''running'' \<in> set (cs_log s'))"
proof -
  let ?mid = "\<lparr>cs_tasks = fst (resetAll [exWeb] gcSched),
               cs_sched = snd (resetAll [exWeb] gcSched), cs_log = []\<rparr>"
  have mid: "observeAll [] ?mid = Inr ?mid" by simp
  have t: "exWeb \<in> set [exWeb]" by simp
  have r1: "recordOf (cs_sched ?mid) (Name exWeb) ''0123456789ab''
      = Some \<lparr>state = ''removing'', updated = False\<rparr>"
    by (simp add: pass_eval gcSched_def exWeb_def)
  have r2: "recordOf (cs_sched ?mid) (Name exWeb) ''111111111111''
      = Some \<lparr>state = ''running'', updated = False\<rparr>"
    by (simp add: pass_eval gcSched_def exWeb_def)
  from CountAllTasks_sweeps_unseen [OF wfStore_gcSched mid t r1]
    CountAllTasks_sweeps_unseen [OF wfStore_gcSched mid t r2]
  have "\<exists>s'. CountAllTasks (Inr []) gcSched [exWeb] = Inr (None, s') \<and>
      recordOf (cs_sched s') (Name exWeb) ''0123456789ab'' = None \<and>
      recordOf (cs_sched s') (Name exWeb) ''111111111111''
        = Some \<lparr>state = ''running'', updated = False\<rparr> \<and>
      BadState ''111111111111'' ''running'' \<in> set (cs_log s')"
    by auto
  with wfStore_gcSched mid r1 r2 show ?thesis by simp
qed

text \<open>
  The claim as the spec states it, for every record of the store, fails: \<open>db\<close> is
  registered in \<open>gcSched\<close> but is not in the list given to the pass, and its unseen
  record in state \<^verbatim>\<open>"removing"\<close> is still there after the pass.
\<close>

theorem CountAllTasks_sweeps_unseen_counterexample:
  "recordOf gcSched ''db'' ''aaaaaaaaaaaa'' = Some \<lparr>state = ''removing'', updated = False\<rparr> \<and>
   \<not> isl (CountAllTasks (Inr []) gcSched [exWeb]) \<and>
   passRecord (CountAllTasks (Inr []) gcSched [exWeb]) ''db'' ''aaaaaaaaaaaa''
     = Some \<lparr>state = ''removing'', updated = False\<rparr>"
  by (simp add: pass_eval gcSched_def exWeb_def)







lemma bump_names: "map Name (bump ac ts) = map Name ts"
  by (simp add: bump_def names_list_update split: option.splits)












lemma updated_observedRecord [simp]: "updated (observedRecord ns k found)"
  by (simp add: observedRecord_def)














end
